theory Spec2Isabelle
  imports Main "HOL-Library.Multiset"
begin

section \<open>Strings of the source language\<close>

text \<open>
  The source is Python; its \<open>str\<close> values are modelled as HOL strings, one \<open>char\<close> per
  code point, for the code points below 256.  The three string operations the port manager
  uses are the substring test \<open>a in b\<close>, \<open>str.lower()\<close> and \<open>str.split()\<close>.
\<close>

fun startswith :: "string \<Rightarrow> string \<Rightarrow> bool" where
  "startswith s [] = True"
| "startswith [] (p # ps) = False"
| "startswith (c # s) (p # ps) = (c = p \<and> startswith s ps)"

text \<open>\<open>str_in a b\<close> is Python's \<open>a in b\<close> on strings: \<open>a\<close> occurs in \<open>b\<close> as a
  contiguous run of characters.\<close>

fun str_in :: "string \<Rightarrow> string \<Rightarrow> bool" where
  "str_in a [] = (a = [])"
| "str_in a (c # s) = (startswith (c # s) a \<or> str_in a s)"

text \<open>\<open>str.lower()\<close> on code points below 256: the letters A to Z and the upper-case
  letters of the Latin-1 block (192 to 222 without the multiplication sign 215) move up
  by 32; every other character stays.\<close>

definition lower_char :: "char \<Rightarrow> char" where
  "lower_char c =
     (let n = (of_char c :: nat)
      in if (65 \<le> n \<and> n \<le> 90) \<or> (192 \<le> n \<and> n \<le> 222 \<and> n \<noteq> 215)
         then char_of (n + 32) else c)"

definition lower :: "string \<Rightarrow> string" where
  "lower s = map lower_char s"

text \<open>\<open>str.isspace()\<close> on one character: tab, line feed, vertical tab, form feed,
  carriage return, the four separators 28 to 31, space, next line (133) and the no-break
  space (160).\<close>

definition isspace :: "char \<Rightarrow> bool" where
  "isspace c =
     (let n = (of_char c :: nat)
      in (9 \<le> n \<and> n \<le> 13) \<or> (28 \<le> n \<and> n \<le> 32) \<or> n = 133 \<or> n = 160)"

text \<open>\<open>str.split()\<close> without arguments: the maximal runs of non-space characters, in
  order.  \<open>split_from w s\<close> scans \<open>s\<close> with the word \<open>w\<close> in progress.\<close>

fun split_from :: "string \<Rightarrow> string \<Rightarrow> string list" where
  "split_from w [] = (if w = [] then [] else [w])"
| "split_from w (c # s) =
     (if isspace c then (if w = [] then split_from [] s else w # split_from [] s)
      else split_from (w @ [c]) s)"

definition split :: "string \<Rightarrow> string list" where
  "split s = split_from [] s"

text \<open>\<open>sep.join(words)\<close>.\<close>

fun join :: "string \<Rightarrow> string list \<Rightarrow> string" where
  "join sep [] = []"
| "join sep [w] = w"
| "join sep (w # v # ws) = w @ sep @ join sep (v # ws)"

section \<open>Exceptions\<close>

text \<open>The exceptions that can occur while the port manager runs: the three classes of
  \<open>psutil\<close> that its handlers name (\<open>ZombieProcess\<close> is a subclass of
  \<open>NoSuchProcess\<close> and is caught with it), \<open>IndexError\<close> of an index into an empty
  list, and \<open>OSError\<close> for what the operating system may raise besides.  A function that
  can raise returns \<open>exn + 'a\<close>.\<close>

datatype exn = NoSuchProcess | AccessDenied | TimeoutExpired | IndexError | OSError

section \<open>Static classification tables\<close>

text \<open>The class constants \<open>PROTECTED_PROCESSES\<close> (a set in the source; only membership
  tests are made on it) and \<open>DEV_PORT_RANGES\<close>.\<close>

definition PROTECTED_PROCESSES :: "string list" where
  "PROTECTED_PROCESSES =
     [''postgres'', ''postgresql'', ''mysqld'', ''mysql'',
      ''redis-server'', ''mongod'', ''nginx'', ''apache2'']"

definition DEV_PORT_RANGES :: "(int \<times> int) list" where
  "DEV_PORT_RANGES =
     [(3000, 3999), (4200, 4299), (5000, 5999), (8000, 8999), (5173, 5173), (8080, 8080)]"

section \<open>Classification\<close>

text \<open>\<open>PortManager.is_dev_port\<close>:
  \<open>any(start <= port <= end for start, end in DEV_PORT_RANGES)\<close>.\<close>

definition is_dev_port :: "int \<Rightarrow> bool" where
  "is_dev_port port = list_ex (\<lambda>(start, stop). start \<le> port \<and> port \<le> stop) DEV_PORT_RANGES"

text \<open>The protection test that \<open>get_listening_ports\<close> makes on the process name:
  \<open>any(protected in process_name.lower() for protected in PROTECTED_PROCESSES)\<close>.\<close>

definition protected_name :: "string \<Rightarrow> bool" where
  "protected_name process_name =
     list_ex (\<lambda>protected. str_in protected (lower process_name)) PROTECTED_PROCESSES"

section \<open>Humanization\<close>

text \<open>
  \<open>PortManager._humanize_cmdline\<close> is a sequence of \<open>if\<close> statements, each of which
  may return.  It is translated from the last statement backwards: every definition below
  is the function's code from one top-level \<open>if\<close> to the end of the function, so that an
  \<open>if\<close> whose branches do not return falls through to the next definition.
\<close>

text \<open>\<open>cmdline.split()[-1]\<close>.\<close>

definition last_word :: "string \<Rightarrow> exn + string" where
  "last_word cmdline = (case split cmdline of [] \<Rightarrow> Inl IndexError | w # ws \<Rightarrow> Inr (last (w # ws)))"

definition humanize_docker :: "string \<Rightarrow> string \<Rightarrow> exn + string" where
  "humanize_docker cmdline process_name =
     (if str_in ''docker-proxy'' process_name then Inr ''Docker Container Port Proxy''
      else Inr cmdline)"

definition humanize_java :: "string \<Rightarrow> string \<Rightarrow> exn + string" where
  "humanize_java cmdline process_name =
     (if str_in ''java'' (lower process_name) then
        (if str_in ''spring'' (lower cmdline) then Inr ''Spring Boot Application''
         else if str_in ''.jar'' cmdline then
           (let jar_name = filter (\<lambda>p. str_in ''.jar'' p) (split cmdline)
            in Inr (''Java Application - '' @ (if jar_name \<noteq> [] then hd jar_name else ''jar'')))
         else humanize_docker cmdline process_name)
      else humanize_docker cmdline process_name)"

definition humanize_python :: "string \<Rightarrow> string \<Rightarrow> exn + string" where
  "humanize_python cmdline process_name =
     (if str_in ''python'' (lower process_name) then
        (if str_in ''manage.py runserver'' cmdline then Inr ''Django Dev Server''
         else if str_in ''flask run'' cmdline \<or> str_in ''app.py'' cmdline then Inr ''Flask Dev Server''
         else if str_in ''uvicorn'' cmdline then Inr ''Uvicorn (FastAPI/Starlette)''
         else if str_in ''gunicorn'' cmdline then Inr ''Gunicorn WSGI Server''
         else humanize_java cmdline process_name)
      else humanize_java cmdline process_name)"

definition humanize_node :: "string \<Rightarrow> string \<Rightarrow> exn + string" where
  "humanize_node cmdline process_name =
     (if str_in ''node'' (lower process_name) then
        (if str_in ''vite'' (lower cmdline) then Inr ''Vite Dev Server''
         else if str_in ''webpack'' (lower cmdline) then Inr ''Webpack Dev Server''
         else if str_in ''next'' (lower cmdline) then Inr ''Next.js Dev Server''
         else if str_in ''react-scripts'' (lower cmdline) then Inr ''React Dev Server''
         else if str_in ''vue-cli-service'' (lower cmdline) then Inr ''Vue Dev Server''
         else if str_in ''nodemon'' (lower cmdline) then
           (if cmdline \<noteq> [] then map_sum id (\<lambda>w. ''Nodemon - '' @ w) (last_word cmdline)
            else Inr ''Nodemon'')
         else if str_in ''ts-node'' (lower cmdline) then
           (if cmdline \<noteq> [] then map_sum id (\<lambda>w. ''TypeScript Node - '' @ w) (last_word cmdline)
            else Inr ''TypeScript Node'')
         else humanize_python cmdline process_name)
      else humanize_python cmdline process_name)"

definition humanize_electron :: "string \<Rightarrow> string \<Rightarrow> exn + string" where
  "humanize_electron cmdline process_name =
     (if str_in ''/proc/self/exe'' cmdline \<and> str_in ''type=utility'' cmdline
      then Inr (process_name @ '' - Utility Process'')
      else if str_in ''/proc/self/exe'' cmdline \<and> str_in ''type=renderer'' cmdline
      then Inr (process_name @ '' - Renderer Process'')
      else humanize_node cmdline process_name)"

definition humanize_cmdline :: "string \<Rightarrow> string \<Rightarrow> exn + string" where
  "humanize_cmdline cmdline process_name =
     (if str_in ''code'' (lower process_name) \<or> str_in ''/snap/code/'' cmdline then
        (if str_in ''/proc/self/exe'' cmdline \<and> str_in ''type=utility'' cmdline
         then Inr ''VSCode - Utility Process''
         else if str_in ''/proc/self/exe'' cmdline \<and> str_in ''type=renderer'' cmdline
         then Inr ''VSCode - Renderer Process''
         else if str_in ''pylance'' (lower cmdline) \<or> str_in ''vscode-pylance'' cmdline
         then Inr ''VSCode - Pylance Language Server''
         else if str_in ''extensions'' cmdline \<and> str_in ''.js'' cmdline then
           (if str_in ''ms-python'' cmdline then Inr ''VSCode - Python Extension''
            else if str_in ''ms-vscode'' cmdline then Inr ''VSCode - Extension Server''
            else Inr ''VSCode - Extension Process'')
         else humanize_electron cmdline process_name)
      else humanize_electron cmdline process_name)"

section \<open>Terminating one process\<close>

text \<open>
  \<open>kill_process\<close> talks to the live system through four calls of \<open>psutil\<close>:
  \<open>psutil.Process(pid)\<close>, \<open>process.kill()\<close>, \<open>process.terminate()\<close> and
  \<open>process.wait(timeout=3)\<close>.  Each call is recorded in a trace, and what the system
  answers to a call (it returns, \<open>None\<close>, or raises, \<open>Some e\<close>) is a function of the
  calls made before it and of the call itself, so that every behaviour of the system is
  covered, also a process that exits or changes hands between two calls.
\<close>

datatype syscall =
    Process_new int
  | Proc_kill int
  | Proc_terminate int
  | Proc_wait int nat

type_synonym trace = "syscall list"

type_synonym system = "trace \<Rightarrow> syscall \<Rightarrow> exn option"

fun syscall_pid :: "syscall \<Rightarrow> int" where
  "syscall_pid (Process_new p) = p"
| "syscall_pid (Proc_kill p) = p"
| "syscall_pid (Proc_terminate p) = p"
| "syscall_pid (Proc_wait p t) = p"

definition call :: "system \<Rightarrow> trace \<Rightarrow> syscall \<Rightarrow> exn option \<times> trace" where
  "call sys tr c = (sys tr c, tr @ [c])"

text \<open>The body of the \<open>try\<close> statement up to \<open>return True\<close>: the exception that left
  it, if any, and the trace.\<close>

definition kill_process_try :: "system \<Rightarrow> trace \<Rightarrow> int \<Rightarrow> bool \<Rightarrow> exn option \<times> trace" where
  "kill_process_try sys tr pid force =
     (case call sys tr (Process_new pid) of
        (Some e, tr1) \<Rightarrow> (Some e, tr1)
      | (None, tr1) \<Rightarrow>
          (case call sys tr1 (if force then Proc_kill pid else Proc_terminate pid) of
             (Some e, tr2) \<Rightarrow> (Some e, tr2)
           | (None, tr2) \<Rightarrow> call sys tr2 (Proc_wait pid 3)))"

text \<open>\<open>PortManager.kill_process\<close>: the \<open>try\<close> body and the three handlers.  An
  exception that no handler names leaves the function.\<close>

function kill_process :: "system \<Rightarrow> trace \<Rightarrow> int \<Rightarrow> bool \<Rightarrow> (exn + bool) \<times> trace" where
  "kill_process sys tr pid force =
     (case kill_process_try sys tr pid force of
        (None, tr') \<Rightarrow> (Inr True, tr')
      | (Some NoSuchProcess, tr') \<Rightarrow> (Inr True, tr')
      | (Some AccessDenied, tr') \<Rightarrow> (Inr False, tr')
      | (Some TimeoutExpired, tr') \<Rightarrow>
          (if \<not> force then kill_process sys tr' pid True else (Inr False, tr'))
      | (Some e, tr') \<Rightarrow> (Inl e, tr'))"
  by pat_completeness auto
termination
  by (relation "measure (\<lambda>(sys, tr, pid, force). if force then 0 else 1)") auto

section \<open>Findings\<close>

text \<open>The dataclass \<open>PortProcess\<close>.\<close>

record PortProcess =
  port :: int
  pid :: int
  process_name :: string
  cmdline :: string
  protocol :: string
  status :: string
  is_protected :: bool


text \<open>
  What \<open>get_listening_ports\<close> reads from the system.  A connection is the named tuple
  \<open>sconn\<close> of \<open>psutil\<close>: \<open>laddr\<close> is the empty tuple (\<open>None\<close>) or an address
  and a port, \<open>pid\<close> is \<open>None\<close> or an integer, \<open>type\<close> is the socket kind (1 for
  \<open>SOCK_STREAM\<close>).  \<open>psutil.Process(pid)\<close> raises or gives a handle, and each of
  \<open>process.cmdline()\<close> and \<open>process.name()\<close> raises or returns, so that a process
  may vanish or refuse access at any of the three reads.
\<close>

record sconn =
  conn_status :: string
  conn_laddr :: "(string \<times> int) option"
  conn_pid :: "int option"
  conn_type :: int

record process =
  proc_cmdline :: "exn + string list"
  proc_name :: "exn + string"

record host =
  net_connections :: "exn + sconn list"
  Process :: "int \<Rightarrow> exn + process"

text \<open>The body of the \<open>try\<close> statement of \<open>get_listening_ports\<close> for a connection
  whose \<open>pid\<close> is \<open>p\<close>, not zero, and whose local port is \<open>lport\<close>: the finding it
  appends, or the exception that leaves it.\<close>

definition port_entry :: "host \<Rightarrow> sconn \<Rightarrow> int \<Rightarrow> int \<Rightarrow> exn + PortProcess" where
  "port_entry h conn lport p =
     (case Process h p of
        Inl e \<Rightarrow> Inl e
      | Inr proc \<Rightarrow>
          (case proc_cmdline proc of
             Inl e \<Rightarrow> Inl e
           | Inr words \<Rightarrow>
               (case proc_name proc of
                  Inl e \<Rightarrow> Inl e
                | Inr name \<Rightarrow>
                    (case humanize_cmdline (join '' '' words) name of
                       Inl e \<Rightarrow> Inl e
                     | Inr cmdline_human \<Rightarrow>
                         Inr \<lparr>port = lport,
                              pid = p,
                              process_name = name,
                              cmdline = take 150 cmdline_human,
                              protocol = (if conn_type conn = 1 then ''TCP'' else ''UDP''),
                              status = conn_status conn,
                              is_protected = protected_name name\<rparr>))))"

text \<open>The \<open>for\<close> loop of \<open>get_listening_ports\<close> over the connections, with the list
  \<open>ports\<close> built so far.  The handler continues on \<open>NoSuchProcess\<close> and
  \<open>AccessDenied\<close>; any other exception leaves the function.\<close>

fun scan :: "host \<Rightarrow> sconn list \<Rightarrow> PortProcess list \<Rightarrow> exn + PortProcess list" where
  "scan h [] ports = Inr ports"
| "scan h (conn # conns) ports =
     (if conn_status conn \<noteq> ''LISTEN'' then scan h conns ports
      else case conn_laddr conn of
        None \<Rightarrow> scan h conns ports
      | Some (ip, lport) \<Rightarrow>
          if lport = 0 then scan h conns ports
          else case conn_pid conn of
            None \<Rightarrow> scan h conns ports
          | Some p \<Rightarrow>
              if p = 0 then scan h conns ports
              else case port_entry h conn lport p of
                Inl NoSuchProcess \<Rightarrow> scan h conns ports
              | Inl AccessDenied \<Rightarrow> scan h conns ports
              | Inl e \<Rightarrow> Inl e
              | Inr port_proc \<Rightarrow> scan h conns (ports @ [port_proc]))"

text \<open>\<open>PortManager.get_listening_ports\<close>.  Python's \<open>sorted\<close> is a stable sort;
  it is modelled by the insertion sort \<open>sort_key\<close>.\<close>

definition get_listening_ports :: "host \<Rightarrow> exn + PortProcess list" where
  "get_listening_ports h =
     (case net_connections h of
        Inl e \<Rightarrow> Inl e
      | Inr conns \<Rightarrow>
          (case scan h conns [] of
             Inl e \<Rightarrow> Inl e
           | Inr ports \<Rightarrow> Inr (sort_key port ports)))"

text \<open>\<open>PortManager.get_dev_ports\<close>.\<close>

definition get_dev_ports :: "host \<Rightarrow> exn + PortProcess list" where
  "get_dev_ports h =
     (case get_listening_ports h of
        Inl e \<Rightarrow> Inl e
      | Inr all_ports \<Rightarrow> Inr (filter (\<lambda>p. is_dev_port (port p)) all_ports))"

section \<open>Terminating all development ports\<close>

text \<open>The \<open>for\<close> loop of \<open>kill_all_dev_ports\<close> over \<open>dev_ports\<close>, with the counter
  \<open>killed_count\<close>.\<close>

fun kill_loop :: "system \<Rightarrow> bool \<Rightarrow> PortProcess list \<Rightarrow> trace \<Rightarrow> int \<Rightarrow> (exn + int) \<times> trace" where
  "kill_loop sys force [] tr killed_count = (Inr killed_count, tr)"
| "kill_loop sys force (port_proc # dev_ports) tr killed_count =
     (if \<not> is_protected port_proc then
        (case kill_process sys tr (pid port_proc) force of
           (Inl e, tr') \<Rightarrow> (Inl e, tr')
         | (Inr ok, tr') \<Rightarrow>
             kill_loop sys force dev_ports tr' (if ok then killed_count + 1 else killed_count))
      else kill_loop sys force dev_ports tr killed_count)"

text \<open>\<open>PortManager.kill_all_dev_ports\<close>.\<close>

definition kill_all_dev_ports :: "host \<Rightarrow> system \<Rightarrow> trace \<Rightarrow> bool \<Rightarrow> (exn + int) \<times> trace" where
  "kill_all_dev_ports h sys tr force =
     (case get_dev_ports h of
        Inl e \<Rightarrow> (Inl e, tr)
      | Inr dev_ports \<Rightarrow> kill_loop sys force dev_ports tr 0)"

section \<open>Specification-level definitions\<close>

text \<open>
  The outcomes of \<open>kill_process\<close> called on each process id of a list in turn, every call
  made in the state the call before it left; the sequence ends at a call that raises.
\<close>

fun kill_each :: "system \<Rightarrow> bool \<Rightarrow> int list \<Rightarrow> trace \<Rightarrow> (exn + bool) list" where
  "kill_each sys force [] tr = []"
| "kill_each sys force (p # ps) tr =
     (case kill_process sys tr p force of
        (Inl e, tr') \<Rightarrow> [Inl e]
      | (Inr ok, tr') \<Rightarrow> Inr ok # kill_each sys force ps tr')"

text \<open>The outcomes of terminating the findings of a list that are not protected.\<close>

definition kill_results :: "system \<Rightarrow> bool \<Rightarrow> PortProcess list \<Rightarrow> trace \<Rightarrow> (exn + bool) list" where
  "kill_results sys force ps tr =
     kill_each sys force (map pid (filter (\<lambda>f. \<not> is_protected f) ps)) tr"

text \<open>A connection reports a process id that is present and not zero.\<close>

definition has_pid :: "sconn \<Rightarrow> bool" where
  "has_pid c = (case conn_pid c of None \<Rightarrow> False | Some p \<Rightarrow> p \<noteq> 0)"

text \<open>
  The pattern checks of the humanizer as the specification describes them: an ordered
  list of patterns, each a test on the command line \<open>c\<close> and the process name \<open>n\<close> with
  the label it yields.  The first pattern that matches wins; without a match the command
  line is the label.
\<close>

type_synonym pattern = "(string \<Rightarrow> string \<Rightarrow> bool) \<times> (string \<Rightarrow> string \<Rightarrow> string)"

definition humanize_patterns :: "pattern list" where
  "humanize_patterns =
     (let vscode = (\<lambda>c n. str_in ''code'' (lower n) \<or> str_in ''/snap/code/'' c);
          utility = (\<lambda>c. str_in ''/proc/self/exe'' c \<and> str_in ''type=utility'' c);
          renderer = (\<lambda>c. str_in ''/proc/self/exe'' c \<and> str_in ''type=renderer'' c);
          extension = (\<lambda>c. str_in ''extensions'' c \<and> str_in ''.js'' c);
          node = (\<lambda>n. str_in ''node'' (lower n));
          python = (\<lambda>n. str_in ''python'' (lower n));
          java = (\<lambda>n. str_in ''java'' (lower n))
      in
      [(\<lambda>c n. vscode c n \<and> utility c, \<lambda>c n. ''VSCode - Utility Process''),
       (\<lambda>c n. vscode c n \<and> renderer c, \<lambda>c n. ''VSCode - Renderer Process''),
       (\<lambda>c n. vscode c n \<and> (str_in ''pylance'' (lower c) \<or> str_in ''vscode-pylance'' c),
          \<lambda>c n. ''VSCode - Pylance Language Server''),
       (\<lambda>c n. vscode c n \<and> extension c \<and> str_in ''ms-python'' c,
          \<lambda>c n. ''VSCode - Python Extension''),
       (\<lambda>c n. vscode c n \<and> extension c \<and> str_in ''ms-vscode'' c,
          \<lambda>c n. ''VSCode - Extension Server''),
       (\<lambda>c n. vscode c n \<and> extension c, \<lambda>c n. ''VSCode - Extension Process''),
       (\<lambda>c n. utility c, \<lambda>c n. n @ '' - Utility Process''),
       (\<lambda>c n. renderer c, \<lambda>c n. n @ '' - Renderer Process''),
       (\<lambda>c n. node n \<and> str_in ''vite'' (lower c), \<lambda>c n. ''Vite Dev Server''),
       (\<lambda>c n. node n \<and> str_in ''webpack'' (lower c), \<lambda>c n. ''Webpack Dev Server''),
       (\<lambda>c n. node n \<and> str_in ''next'' (lower c), \<lambda>c n. ''Next.js Dev Server''),
       (\<lambda>c n. node n \<and> str_in ''react-scripts'' (lower c), \<lambda>c n. ''React Dev Server''),
       (\<lambda>c n. node n \<and> str_in ''vue-cli-service'' (lower c), \<lambda>c n. ''Vue Dev Server''),
       (\<lambda>c n. node n \<and> str_in ''nodemon'' (lower c), \<lambda>c n. ''Nodemon - '' @ last (split c)),
       (\<lambda>c n. node n \<and> str_in ''ts-node'' (lower c),
          \<lambda>c n. ''TypeScript Node - '' @ last (split c)),
       (\<lambda>c n. python n \<and> str_in ''manage.py runserver'' c, \<lambda>c n. ''Django Dev Server''),
       (\<lambda>c n. python n \<and> (str_in ''flask run'' c \<or> str_in ''app.py'' c),
          \<lambda>c n. ''Flask Dev Server''),
       (\<lambda>c n. python n \<and> str_in ''uvicorn'' c, \<lambda>c n. ''Uvicorn (FastAPI/Starlette)''),
       (\<lambda>c n. python n \<and> str_in ''gunicorn'' c, \<lambda>c n. ''Gunicorn WSGI Server''),
       (\<lambda>c n. java n \<and> str_in ''spring'' (lower c), \<lambda>c n. ''Spring Boot Application''),
       (\<lambda>c n. java n \<and> str_in ''.jar'' c,
          \<lambda>c n. ''Java Application - '' @
            (case filter (\<lambda>p. str_in ''.jar'' p) (split c) of [] \<Rightarrow> ''jar'' | j # js \<Rightarrow> j)),
       (\<lambda>c n. str_in ''docker-proxy'' n, \<lambda>c n. ''Docker Container Port Proxy'')])"

definition first_match :: "string \<Rightarrow> string \<Rightarrow> string" where
  "first_match c n =
     (case find (\<lambda>(matches, label). matches c n) humanize_patterns of
        None \<Rightarrow> c
      | Some (matches, label) \<Rightarrow> label c n)"

text \<open>
  The host \<open>h\<close> with other command lines: every process \<open>p\<close> whose command line can be
  read reports \<open>g p words\<close> where it reported \<open>words\<close>.  Names, errors and connections
  stay.
\<close>

definition with_cmdlines :: "(int \<Rightarrow> string list \<Rightarrow> string list) \<Rightarrow> host \<Rightarrow> host" where
  "with_cmdlines g h =
     h\<lparr>Process := \<lambda>p.
         (case Process h p of
            Inl e \<Rightarrow> Inl e
          | Inr proc \<Rightarrow>
              Inr (proc\<lparr>proc_cmdline :=
                    (case proc_cmdline proc of Inl e \<Rightarrow> Inl e | Inr words \<Rightarrow> Inr (g p words))\<rparr>))\<rparr>"

text \<open>A finding without its label: every field but \<open>cmdline\<close>.\<close>

definition unlabelled :: "PortProcess \<Rightarrow> int \<times> int \<times> string \<times> string \<times> string \<times> bool" where
  "unlabelled f = (port f, pid f, process_name f, protocol f, status f, is_protected f)"

section \<open>A host and a system to run the model on\<close>

text \<open>
  Eight connections in the order the system reports them: two listeners on port 3000, a
  PostgreSQL server on its port 5432, listeners without a process id or with the process
  id zero, one connection that is not listening, and one whose process has gone.
\<close>

definition demo_conns :: "sconn list" where
  "demo_conns =
     [\<lparr>conn_status = ''LISTEN'', conn_laddr = Some (''0.0.0.0'', 8080), conn_pid = Some 42, conn_type = 1\<rparr>,
      \<lparr>conn_status = ''LISTEN'', conn_laddr = Some (''127.0.0.1'', 3000), conn_pid = Some 17, conn_type = 1\<rparr>,
      \<lparr>conn_status = ''LISTEN'', conn_laddr = Some (''0.0.0.0'', 22), conn_pid = None, conn_type = 1\<rparr>,
      \<lparr>conn_status = ''ESTABLISHED'', conn_laddr = Some (''127.0.0.1'', 3000), conn_pid = Some 17, conn_type = 1\<rparr>,
      \<lparr>conn_status = ''LISTEN'', conn_laddr = Some (''0.0.0.0'', 5432), conn_pid = Some 11, conn_type = 1\<rparr>,
      \<lparr>conn_status = ''LISTEN'', conn_laddr = Some (''::'', 3000), conn_pid = Some 18, conn_type = 2\<rparr>,
      \<lparr>conn_status = ''LISTEN'', conn_laddr = Some (''0.0.0.0'', 6000), conn_pid = Some 99, conn_type = 1\<rparr>,
      \<lparr>conn_status = ''LISTEN'', conn_laddr = Some (''0.0.0.0'', 631), conn_pid = Some 0, conn_type = 1\<rparr>]"

definition demo_Process :: "int \<Rightarrow> exn + process" where
  "demo_Process p =
     (if p = 42 then
        Inr \<lparr>proc_cmdline = Inr [''java'', ''-jar'', ''/opt/shop.jar''], proc_name = Inr ''java''\<rparr>
      else if p = 17 then
        Inr \<lparr>proc_cmdline = Inr [''node'', ''node_modules/.bin/vite''], proc_name = Inr ''node''\<rparr>
      else if p = 18 then
        Inr \<lparr>proc_cmdline = Inr [''myservice'', ''--config=/etc/x.conf''], proc_name = Inr ''myservice''\<rparr>
      else if p = 11 then
        Inr \<lparr>proc_cmdline = Inr [''/usr/lib/postgresql/16/bin/postgres'', ''-D'', ''/var/lib/pg''],
             proc_name = Inr ''postgres''\<rparr>
      else Inl NoSuchProcess)"

definition demo_host :: host where
  "demo_host = \<lparr>net_connections = Inr demo_conns, Process = demo_Process\<rparr>"

definition demo_findings :: "PortProcess list" where
  "demo_findings =
     [\<lparr>port = 3000, pid = 17, process_name = ''node'', cmdline = ''Vite Dev Server'',
        protocol = ''TCP'', status = ''LISTEN'', is_protected = False\<rparr>,
      \<lparr>port = 3000, pid = 18, process_name = ''myservice'',
        cmdline = ''myservice --config=/etc/x.conf'',
        protocol = ''UDP'', status = ''LISTEN'', is_protected = False\<rparr>,
      \<lparr>port = 5432, pid = 11, process_name = ''postgres'',
        cmdline = ''/usr/lib/postgresql/16/bin/postgres -D /var/lib/pg'',
        protocol = ''TCP'', status = ''LISTEN'', is_protected = True\<rparr>,
      \<lparr>port = 8080, pid = 42, process_name = ''java'',
        cmdline = ''Java Application - /opt/shop.jar'',
        protocol = ''TCP'', status = ''LISTEN'', is_protected = False\<rparr>]"

text \<open>
  A system in which the processes 11, 17, 18, 23 and 42 exist: 18 belongs to another user
  and may not be signalled, 17 ignores the graceful signal and exits on the forced one, 23
  exits on neither, 11 and 42 exit on any signal.
\<close>

definition demo_system :: system where
  "demo_system tr c =
     (case c of
        Process_new p \<Rightarrow> if p \<in> {11, 17, 18, 23, 42} then None else Some NoSuchProcess
      | Proc_terminate p \<Rightarrow> if p = 18 then Some AccessDenied else None
      | Proc_kill p \<Rightarrow> if p = 18 then Some AccessDenied else None
      | Proc_wait p t \<Rightarrow>
          if p = 23 \<or> (p = 17 \<and> Proc_kill 17 \<notin> set tr) then Some TimeoutExpired else None)"

section \<open>Substring test\<close>

lemma startswith_iff: "startswith s p \<longleftrightarrow> (\<exists>t. s = p @ t)"
  by (induction s p rule: startswith.induct) auto

lemma str_in_iff: "str_in a b \<longleftrightarrow> (\<exists>u v. b = u @ a @ v)"
proof (induction b)
  case Nil
  then show ?case by auto
next
  case (Cons c s)
  have "(\<exists>u v. c # s = u @ a @ v) \<longleftrightarrow> (\<exists>v. c # s = a @ v) \<or> (\<exists>u v. s = u @ a @ v)"
  proof
    assume "\<exists>u v. c # s = u @ a @ v"
    then obtain u v where uv: "c # s = u @ a @ v" by blast
    show "(\<exists>v. c # s = a @ v) \<or> (\<exists>u v. s = u @ a @ v)"
    proof (cases u)
      case Nil
      with uv show ?thesis by auto
    next
      case (Cons d u')
      with uv have "s = u' @ a @ v" by simp
      then show ?thesis by blast
    qed
  next
    assume "(\<exists>v. c # s = a @ v) \<or> (\<exists>u v. s = u @ a @ v)"
    then show "\<exists>u v. c # s = u @ a @ v"
    proof
      assume "\<exists>v. c # s = a @ v"
      then obtain v where "c # s = [] @ a @ v" by auto
      then show ?thesis by blast
    next
      assume "\<exists>u v. s = u @ a @ v"
      then obtain u v where "c # s = (c # u) @ a @ v" by auto
      then show ?thesis by blast
    qed
  qed
  with Cons show ?case by (simp add: startswith_iff)
qed

section \<open>Development ports\<close>

text \<open>
  Claim C2, as the code has it.  A port is a development port exactly when it lies in one
  of the six inclusive ranges 3000-3999, 4200-4299, 5000-5999, 8000-8999, 5173-5173 and
  8080-8080.  The boundary values 3000, 3999, 4200, 4299, 5173 and 8080 are development
  ports, the neighbours 2999 and 4000 are not, and 8081 is one, since it lies in
  8000-8999.
\<close>

theorem is_dev_port_ranges:
  "(is_dev_port p \<longleftrightarrow>
      (3000 \<le> p \<and> p \<le> 3999) \<or> (4200 \<le> p \<and> p \<le> 4299) \<or> (5000 \<le> p \<and> p \<le> 5999) \<or>
      (8000 \<le> p \<and> p \<le> 8999) \<or> (5173 \<le> p \<and> p \<le> 5173) \<or> (8080 \<le> p \<and> p \<le> 8080))
   \<and> is_dev_port 3000 \<and> is_dev_port 3999 \<and> is_dev_port 4200 \<and> is_dev_port 4299
   \<and> is_dev_port 5173 \<and> is_dev_port 8080
   \<and> \<not> is_dev_port 2999 \<and> \<not> is_dev_port 4000 \<and> is_dev_port 8081"
  by (simp add: is_dev_port_def DEV_PORT_RANGES_def)

theorem is_dev_port_ranges_witness:
  "is_dev_port 4250 \<and> \<not> is_dev_port 22"
  using is_dev_port_ranges [of 4250] is_dev_port_ranges [of 22] by simp

text \<open>
  Claim C2, as the specification words it, also excludes 8081 as a value next to the range
  8080-8080.  The port 8081 lies in the range 8000-8999 of the table and is a development
  port.
\<close>

theorem is_dev_port_8081_counterexample:
  "is_dev_port 8081 \<and> (8000, 8999) \<in> set DEV_PORT_RANGES \<and> (8000::int) \<le> 8081 \<and> (8081::int) \<le> 8999"
  by (simp add: is_dev_port_def DEV_PORT_RANGES_def)

section \<open>Protected process names\<close>

text \<open>
  Claim C3.  A process name is protected exactly when its lower-cased form contains one of
  the strings postgres, postgresql, mysqld, mysql, redis-server, mongod, nginx, apache2 as
  a substring (the name need not be equal to it); the name mysqld_safe is protected.
\<close>

theorem protected_name_substring:
  "(protected_name n \<longleftrightarrow>
      (\<exists>s \<in> {''postgres'', ''postgresql'', ''mysqld'', ''mysql'',
              ''redis-server'', ''mongod'', ''nginx'', ''apache2''}.
         \<exists>u v. lower n = u @ s @ v))
   \<and> protected_name ''mysqld_safe''"
proof
  show "protected_name n \<longleftrightarrow>
      (\<exists>s \<in> {''postgres'', ''postgresql'', ''mysqld'', ''mysql'',
              ''redis-server'', ''mongod'', ''nginx'', ''apache2''}.
         \<exists>u v. lower n = u @ s @ v)"
    unfolding protected_name_def PROTECTED_PROCESSES_def list_ex_iff str_in_iff by simp
  show "protected_name ''mysqld_safe''"
    by code_simp
qed

theorem protected_name_substring_witness:
  "protected_name ''Nginx: master'' \<and>
   (\<exists>s \<in> {''postgres'', ''postgresql'', ''mysqld'', ''mysql'',
              ''redis-server'', ''mongod'', ''nginx'', ''apache2''}.
      \<exists>u v. lower ''Nginx: master'' = u @ s @ v)"
proof -
  have "protected_name ''Nginx: master''" by code_simp
  then show ?thesis using protected_name_substring [of "''Nginx: master''"] by blast
qed

section \<open>Terminating one process: the cases of \<open>kill_process\<close>\<close>

lemma kill_process_force:
  "kill_process sys tr p True =
     (case kill_process_try sys tr p True of
        (None, tr') \<Rightarrow> (Inr True, tr')
      | (Some NoSuchProcess, tr') \<Rightarrow> (Inr True, tr')
      | (Some AccessDenied, tr') \<Rightarrow> (Inr False, tr')
      | (Some TimeoutExpired, tr') \<Rightarrow> (Inr False, tr')
      | (Some e, tr') \<Rightarrow> (Inl e, tr'))"
  by (simp split: prod.splits option.splits exn.splits)

lemma kill_process_graceful:
  "kill_process sys tr p False =
     (case kill_process_try sys tr p False of
        (None, tr') \<Rightarrow> (Inr True, tr')
      | (Some NoSuchProcess, tr') \<Rightarrow> (Inr True, tr')
      | (Some AccessDenied, tr') \<Rightarrow> (Inr False, tr')
      | (Some TimeoutExpired, tr') \<Rightarrow> kill_process sys tr' p True
      | (Some e, tr') \<Rightarrow> (Inl e, tr'))"
  by (simp split: prod.splits option.splits exn.splits)

lemma kill_process_cases:
  "kill_process sys tr p force =
     (case kill_process_try sys tr p force of
        (None, tr') \<Rightarrow> (Inr True, tr')
      | (Some NoSuchProcess, tr') \<Rightarrow> (Inr True, tr')
      | (Some AccessDenied, tr') \<Rightarrow> (Inr False, tr')
      | (Some TimeoutExpired, tr') \<Rightarrow>
          (if force then (Inr False, tr') else kill_process sys tr' p True)
      | (Some e, tr') \<Rightarrow> (Inl e, tr'))"
  by (cases force) (simp_all only: kill_process_force kill_process_graceful if_True if_False)

declare kill_process.simps [simp del]

lemma kill_process_force_trace:
  "snd (kill_process sys tr p True) \<in>
     {tr @ [Process_new p], tr @ [Process_new p, Proc_kill p],
      tr @ [Process_new p, Proc_kill p, Proc_wait p 3]}"
  by (auto simp: kill_process_force kill_process_try_def call_def
      split: prod.splits option.splits exn.splits)

lemma kill_process_try_trace:
  "\<exists>ext. snd (kill_process_try sys tr p force) = tr @ ext \<and> (\<forall>c \<in> set ext. syscall_pid c = p)"
  by (auto simp: kill_process_try_def call_def split: option.splits)

lemma kill_process_trace:
  "\<exists>ext. snd (kill_process sys tr p force) = tr @ ext \<and> (\<forall>c \<in> set ext. syscall_pid c = p)"
proof -
  have forced: "\<exists>ext. snd (kill_process sys tr p True) = tr @ ext \<and> (\<forall>c \<in> set ext. syscall_pid c = p)" for tr
    using kill_process_try_trace [of sys tr p True]
    by (auto simp: kill_process_force split: prod.splits option.splits exn.splits)
  show ?thesis
  proof (cases force)
    case True
    with forced show ?thesis by simp
  next
    case False
    obtain r tr1 where t: "kill_process_try sys tr p False = (r, tr1)" by (cases "kill_process_try sys tr p False")
    with kill_process_try_trace [of sys tr p False]
    obtain ext1 where e1: "tr1 = tr @ ext1" "\<forall>c \<in> set ext1. syscall_pid c = p" by auto
    from forced [of tr1] obtain ext2 where e2: "snd (kill_process sys tr1 p True) = tr1 @ ext2"
      "\<forall>c \<in> set ext2. syscall_pid c = p" by blast
    have "snd (kill_process sys tr p False) = tr1 \<or> snd (kill_process sys tr p False) = tr1 @ ext2"
      using t e2(1) by (auto simp: kill_process_graceful split: option.splits exn.splits)
    then show ?thesis
    proof
      assume "snd (kill_process sys tr p False) = tr1"
      with e1 False show ?thesis by auto
    next
      assume "snd (kill_process sys tr p False) = tr1 @ ext2"
      with e1(1) have "snd (kill_process sys tr p False) = tr @ (ext1 @ ext2)" by simp
      moreover have "\<forall>c \<in> set (ext1 @ ext2). syscall_pid c = p" using e1(2) e2(2) by auto
      ultimately show ?thesis using False by auto
    qed
  qed
qed

text \<open>When the system raises nothing but the three exceptions that the handlers name,
  \<open>kill_process\<close> returns a truth value.\<close>

lemma kill_process_try_raises:
  "fst (kill_process_try sys tr p force) = Some e \<Longrightarrow> \<exists>tr' c. sys tr' c = Some e"
  by (auto simp: kill_process_try_def call_def split: option.splits if_splits)

lemma kill_process_returns:
  assumes "\<And>tr c e. sys tr c = Some e \<Longrightarrow> e = NoSuchProcess \<or> e = AccessDenied \<or> e = TimeoutExpired"
  shows "\<exists>ok. fst (kill_process sys tr p force) = Inr ok"
proof -
  have forced: "\<exists>ok. fst (kill_process sys tr p True) = Inr ok" for tr
  proof (cases "kill_process_try sys tr p True")
    case (Pair r tr1)
    show ?thesis
    proof (cases r)
      case None
      with Pair show ?thesis by (auto simp: kill_process_force)
    next
      case (Some e)
      with Pair kill_process_try_raises [of sys tr p True e] assms
      have "e = NoSuchProcess \<or> e = AccessDenied \<or> e = TimeoutExpired" by auto
      with Pair Some show ?thesis by (auto simp: kill_process_force)
    qed
  qed
  show ?thesis
  proof (cases force)
    case True
    with forced show ?thesis by simp
  next
    case False
    show ?thesis
    proof (cases "kill_process_try sys tr p False")
      case (Pair r tr1)
      show ?thesis
      proof (cases r)
        case None
        with Pair False show ?thesis by (auto simp: kill_process_graceful)
      next
        case (Some e)
        with Pair kill_process_try_raises [of sys tr p False e] assms
        have "e = NoSuchProcess \<or> e = AccessDenied \<or> e = TimeoutExpired" by auto
        with Pair Some False forced [of tr1] show ?thesis by (auto simp: kill_process_graceful)
      qed
    qed
  qed
qed

text \<open>
  Claim C5.  Called on a process id for which no process exists, \<open>kill_process\<close> returns
  \<open>True\<close> and raises nothing, with \<open>force\<close> false and with \<open>force\<close> true, and sends no
  signal.  The same holds when the process vanishes later, at any call of the \<open>try\<close>
  body.
\<close>

theorem kill_process_no_such_process:
  "(sys tr (Process_new p) = Some NoSuchProcess \<longrightarrow>
      kill_process sys tr p False = (Inr True, tr @ [Process_new p]) \<and>
      kill_process sys tr p True = (Inr True, tr @ [Process_new p]))
   \<and> (fst (kill_process_try sys tr p force) = Some NoSuchProcess \<longrightarrow>
      kill_process sys tr p force = (Inr True, snd (kill_process_try sys tr p force)))"
  by (auto simp: kill_process_cases [of sys tr p] kill_process_try_def call_def
      split: prod.splits option.splits)

theorem kill_process_no_such_process_witness:
  "demo_system [] (Process_new 99) = Some NoSuchProcess \<and>
   fst (kill_process_try demo_system [] 99 True) = Some NoSuchProcess \<and>
   kill_process demo_system [] 99 False = (Inr True, [Process_new 99]) \<and>
   kill_process demo_system [] 99 True = (Inr True, [Process_new 99])"
proof -
  have h1: "demo_system [] (Process_new 99) = Some NoSuchProcess"
    by (simp add: demo_system_def)
  have h2: "fst (kill_process_try demo_system [] 99 True) = Some NoSuchProcess"
    by (simp add: kill_process_try_def call_def demo_system_def)
  from h1 h2 kill_process_no_such_process [of demo_system "[]" 99 True]
  show ?thesis by simp
qed

text \<open>
  Claim C6.  When the signal is refused for lack of permission, \<open>kill_process\<close> returns
  \<open>False\<close> and raises nothing, and it makes no further call: after a refused graceful
  signal the forced signal is not tried, and a refused forced signal is not repeated.
\<close>

theorem kill_process_access_denied:
  "(sys tr (Process_new p) = None \<and>
    sys (tr @ [Process_new p]) (Proc_terminate p) = Some AccessDenied \<longrightarrow>
      kill_process sys tr p False = (Inr False, tr @ [Process_new p, Proc_terminate p]))
   \<and> (sys tr (Process_new p) = None \<and>
    sys (tr @ [Process_new p]) (Proc_kill p) = Some AccessDenied \<longrightarrow>
      kill_process sys tr p True = (Inr False, tr @ [Process_new p, Proc_kill p]))
   \<and> (fst (kill_process_try sys tr p force) = Some AccessDenied \<longrightarrow>
      kill_process sys tr p force = (Inr False, snd (kill_process_try sys tr p force)))"
  by (auto simp: kill_process_cases [of sys tr p] kill_process_try_def call_def
      split: prod.splits option.splits)

theorem kill_process_access_denied_witness:
  "demo_system [] (Process_new 18) = None \<and>
   demo_system [Process_new 18] (Proc_terminate 18) = Some AccessDenied \<and>
   demo_system [Process_new 18] (Proc_kill 18) = Some AccessDenied \<and>
   fst (kill_process_try demo_system [] 18 False) = Some AccessDenied \<and>
   kill_process demo_system [] 18 False = (Inr False, [Process_new 18, Proc_terminate 18]) \<and>
   kill_process demo_system [] 18 True = (Inr False, [Process_new 18, Proc_kill 18])"
proof -
  have h1: "demo_system [] (Process_new 18) = None"
    and h2: "demo_system ([] @ [Process_new 18]) (Proc_terminate 18) = Some AccessDenied"
    and h3: "demo_system ([] @ [Process_new 18]) (Proc_kill 18) = Some AccessDenied"
    and h4: "fst (kill_process_try demo_system [] 18 False) = Some AccessDenied"
    by (simp_all add: kill_process_try_def call_def demo_system_def)
  from h1 h2 h3 h4 kill_process_access_denied [of demo_system "[]" 18 False]
  show ?thesis by simp
qed

text \<open>
  Claim C7.  With \<open>force\<close> false, when the graceful signal is sent and the wait of 3
  seconds times out, \<open>kill_process\<close> is the call of itself with \<open>force\<close> true in the state
  reached, and returns what that call returns; the forced call is made once, sending at
  most one forced signal.  With \<open>force\<close> true a timeout of the wait gives \<open>False\<close> and no
  further call.
\<close>

theorem kill_process_timeout_escalates:
  "(sys tr (Process_new p) = None \<and>
    sys (tr @ [Process_new p]) (Proc_terminate p) = None \<and>
    sys (tr @ [Process_new p, Proc_terminate p]) (Proc_wait p 3) = Some TimeoutExpired \<longrightarrow>
      kill_process sys tr p False =
        kill_process sys (tr @ [Process_new p, Proc_terminate p, Proc_wait p 3]) p True \<and>
      snd (kill_process sys tr p False) \<in>
        {tr @ [Process_new p, Proc_terminate p, Proc_wait p 3, Process_new p],
         tr @ [Process_new p, Proc_terminate p, Proc_wait p 3, Process_new p, Proc_kill p],
         tr @ [Process_new p, Proc_terminate p, Proc_wait p 3, Process_new p, Proc_kill p,
               Proc_wait p 3]})
   \<and> (sys tr (Process_new p) = None \<and>
    sys (tr @ [Process_new p]) (Proc_kill p) = None \<and>
    sys (tr @ [Process_new p, Proc_kill p]) (Proc_wait p 3) = Some TimeoutExpired \<longrightarrow>
      kill_process sys tr p True = (Inr False, tr @ [Process_new p, Proc_kill p, Proc_wait p 3]))"
proof (intro conjI impI)
  assume h: "sys tr (Process_new p) = None \<and>
    sys (tr @ [Process_new p]) (Proc_terminate p) = None \<and>
    sys (tr @ [Process_new p, Proc_terminate p]) (Proc_wait p 3) = Some TimeoutExpired"
  then show e: "kill_process sys tr p False =
        kill_process sys (tr @ [Process_new p, Proc_terminate p, Proc_wait p 3]) p True"
    by (simp add: kill_process_graceful kill_process_try_def call_def)
  show "snd (kill_process sys tr p False) \<in>
        {tr @ [Process_new p, Proc_terminate p, Proc_wait p 3, Process_new p],
         tr @ [Process_new p, Proc_terminate p, Proc_wait p 3, Process_new p, Proc_kill p],
         tr @ [Process_new p, Proc_terminate p, Proc_wait p 3, Process_new p, Proc_kill p,
               Proc_wait p 3]}"
    using kill_process_force_trace [of sys "tr @ [Process_new p, Proc_terminate p, Proc_wait p 3]" p]
    unfolding e by simp
next
  assume "sys tr (Process_new p) = None \<and>
    sys (tr @ [Process_new p]) (Proc_kill p) = None \<and>
    sys (tr @ [Process_new p, Proc_kill p]) (Proc_wait p 3) = Some TimeoutExpired"
  then show "kill_process sys tr p True = (Inr False, tr @ [Process_new p, Proc_kill p, Proc_wait p 3])"
    by (simp add: kill_process_force kill_process_try_def call_def)
qed

theorem kill_process_timeout_escalates_witness:
  "demo_system [] (Process_new 17) = None \<and>
   demo_system [Process_new 17] (Proc_terminate 17) = None \<and>
   demo_system [Process_new 17, Proc_terminate 17] (Proc_wait 17 3) = Some TimeoutExpired \<and>
   kill_process demo_system [] 17 False =
     kill_process demo_system [Process_new 17, Proc_terminate 17, Proc_wait 17 3] 17 True \<and>
   demo_system [] (Process_new 23) = None \<and>
   demo_system [Process_new 23] (Proc_kill 23) = None \<and>
   demo_system [Process_new 23, Proc_kill 23] (Proc_wait 23 3) = Some TimeoutExpired \<and>
   kill_process demo_system [] 23 True = (Inr False, [Process_new 23, Proc_kill 23, Proc_wait 23 3])"
proof -
  have g: "demo_system [] (Process_new 17) = None \<and>
      demo_system ([] @ [Process_new 17]) (Proc_terminate 17) = None \<and>
      demo_system ([] @ [Process_new 17, Proc_terminate 17]) (Proc_wait 17 3) = Some TimeoutExpired"
    by (simp add: demo_system_def)
  have f: "demo_system [] (Process_new 23) = None \<and>
      demo_system ([] @ [Process_new 23]) (Proc_kill 23) = None \<and>
      demo_system ([] @ [Process_new 23, Proc_kill 23]) (Proc_wait 23 3) = Some TimeoutExpired"
    by (simp add: demo_system_def)
  from g f kill_process_timeout_escalates [of demo_system "[]" 17]
    kill_process_timeout_escalates [of demo_system "[]" 23]
  show ?thesis by simp
qed

section \<open>The findings of the enumeration\<close>

lemma port_entry_fields:
  "port_entry h c lport p = Inr f \<Longrightarrow> port f = lport \<and> pid f = p \<and> status f = conn_status c"
  by (auto simp: port_entry_def split: sum.splits)

lemma scan_origin:
  "scan h conns acc = Inr ps \<Longrightarrow> f \<in> set ps \<Longrightarrow>
     f \<in> set acc \<or>
     (\<exists>c \<in> set conns. conn_status c = ''LISTEN'' \<and> (\<exists>ip. conn_laddr c = Some (ip, port f)) \<and>
        port f \<noteq> 0 \<and> conn_pid c = Some (pid f) \<and> pid f \<noteq> 0)"
proof (induction conns arbitrary: acc)
  case Nil
  then show ?case by simp
next
  case (Cons c conns)
  show ?case
  proof (cases "conn_status c = ''LISTEN'' \<and> (\<exists>ip lport p e. conn_laddr c = Some (ip, lport) \<and> lport \<noteq> 0 \<and>
       conn_pid c = Some p \<and> p \<noteq> 0 \<and> port_entry h c lport p = Inr e)")
    case True
    then obtain ip lport p e where c: "conn_status c = ''LISTEN''" "conn_laddr c = Some (ip, lport)"
      "lport \<noteq> 0" "conn_pid c = Some p" "p \<noteq> 0" "port_entry h c lport p = Inr e"
      by blast
    with Cons.prems have "scan h conns (acc @ [e]) = Inr ps" by simp
    from Cons.IH [OF this Cons.prems(2)] port_entry_fields [OF c(6)] c
    show ?thesis by auto
  next
    case False
    with Cons.prems have "scan h conns acc = Inr ps"
      by (auto split: if_splits option.splits sum.splits exn.splits prod.splits)
    from Cons.IH [OF this Cons.prems(2)] show ?thesis by auto
  qed
qed

lemma port_entry_host:
  "port_entry (h\<lparr>net_connections := x\<rparr>) c lport p = port_entry h c lport p"
  by (simp add: port_entry_def)

lemma scan_host:
  "scan (h\<lparr>net_connections := x\<rparr>) conns acc = scan h conns acc"
  by (induction conns arbitrary: acc)
     (auto simp: port_entry_host split: option.splits sum.splits exn.splits)

lemma scan_has_pid:
  "scan h (filter has_pid conns) acc = scan h conns acc"
  by (induction conns arbitrary: acc)
     (auto simp: has_pid_def split: option.splits sum.splits exn.splits)

text \<open>
  Claim C10.  Every finding that \<open>get_listening_ports\<close> returns has a process id other
  than zero, and it stems from a connection that reports this process id and the finding's
  port.  Connections whose process id is absent or zero produce no finding: removing
  them from what the system reports leaves the result as it is.
\<close>

theorem findings_have_pid:
  "(get_listening_ports h = Inr ps \<longrightarrow>
      (\<forall>f \<in> set ps. pid f \<noteq> 0 \<and>
         (\<exists>conns. net_connections h = Inr conns \<and>
            (\<exists>c \<in> set conns. conn_pid c = Some (pid f) \<and> (\<exists>ip. conn_laddr c = Some (ip, port f))))))
   \<and> (net_connections h = Inr conns \<longrightarrow>
      get_listening_ports (h\<lparr>net_connections := Inr (filter has_pid conns)\<rparr>) = get_listening_ports h)"
proof (intro conjI impI ballI)
  fix f assume g: "get_listening_ports h = Inr ps" and f: "f \<in> set ps"
  from g obtain conns found where c: "net_connections h = Inr conns" "scan h conns [] = Inr found"
    "ps = sort_key port found"
    by (auto simp: get_listening_ports_def split: sum.splits)
  with f have "f \<in> set found" by simp
  from scan_origin [OF c(2) this] c(1)
  show "pid f \<noteq> 0" 
    and "\<exists>conns. net_connections h = Inr conns \<and>
            (\<exists>c \<in> set conns. conn_pid c = Some (pid f) \<and> (\<exists>ip. conn_laddr c = Some (ip, port f)))"
    by auto
next
  assume "net_connections h = Inr conns"
  then show "get_listening_ports (h\<lparr>net_connections := Inr (filter has_pid conns)\<rparr>) = get_listening_ports h"
    by (simp add: get_listening_ports_def scan_host scan_has_pid)
qed

theorem findings_have_pid_witness:
  "get_listening_ports demo_host = Inr demo_findings \<and>
   net_connections demo_host = Inr demo_conns \<and>
   demo_findings ! 0 \<in> set demo_findings \<and>
   pid (demo_findings ! 0) \<noteq> 0 \<and>
   get_listening_ports (demo_host\<lparr>net_connections := Inr (filter has_pid demo_conns)\<rparr>) =
     Inr demo_findings"
proof -
  have g: "get_listening_ports demo_host = Inr demo_findings" by code_simp
  have n: "net_connections demo_host = Inr demo_conns" by (simp add: demo_host_def)
  have m: "demo_findings ! 0 \<in> set demo_findings" by (simp add: demo_findings_def)
  from findings_have_pid [of demo_host demo_findings demo_conns] g n m
  show ?thesis by auto
qed

text \<open>
  Claim C4.  Whatever the order of the connections the system reports, the list that
  \<open>get_listening_ports\<close> returns is sorted by port in ascending order, and it holds the
  findings of the scan, those of equal port in the order in which the scan found them.
\<close>

theorem get_listening_ports_sorted:
  "get_listening_ports h = Inr ps \<longrightarrow>
     sorted (map port ps) \<and>
     (\<exists>conns found. net_connections h = Inr conns \<and> scan h conns [] = Inr found \<and>
        mset ps = mset found \<and>
        (\<forall>k. filter (\<lambda>f. port f = k) ps = filter (\<lambda>f. port f = k) found))"
  by (auto simp: get_listening_ports_def sort_key_stable split: sum.splits)

theorem get_listening_ports_sorted_witness:
  "get_listening_ports demo_host = Inr demo_findings \<and> sorted (map port demo_findings)"
proof -
  have g: "get_listening_ports demo_host = Inr demo_findings" by code_simp
  with get_listening_ports_sorted [of demo_host demo_findings] show ?thesis by blast
qed

section \<open>The humanizer is a first match over its patterns\<close>

lemma isspace_lower_char: "isspace x \<Longrightarrow> lower_char x = x"
  by (auto simp: isspace_def lower_char_def Let_def)

lemma split_from_nonempty:
  "w \<noteq> [] \<or> (\<exists>x \<in> set s. \<not> isspace x) \<Longrightarrow> split_from w s \<noteq> []"
  by (induction s arbitrary: w) auto

lemma isspace_letters: "\<not> isspace CHR ''n''" "\<not> isspace CHR ''t''"
  by (simp_all add: isspace_def)

lemma str_in_lower_word:
  assumes "str_in (x # a) (lower c)" and "\<not> isspace x"
  shows "split c \<noteq> []" and "c \<noteq> []"
proof -
  from assms(1) obtain u v where "lower c = u @ (x # a) @ v"
    unfolding str_in_iff by blast
  then have "x \<in> set (lower c)" by (metis in_set_conv_decomp append_Cons append_assoc)
  then obtain y where y: "y \<in> set c" "lower_char y = x" by (auto simp: lower_def)
  with assms(2) isspace_lower_char [of y] have "\<not> isspace y" by auto
  with y(1) show "split c \<noteq> []" unfolding split_def by (intro split_from_nonempty) blast
  from y(1) show "c \<noteq> []" by auto
qed

lemma last_word_lower:
  assumes "str_in (x # a) (lower c)" and "\<not> isspace x"
  shows "last_word c = Inr (last (split c))"
  using str_in_lower_word(1) [OF assms] by (auto simp: last_word_def split: list.splits)

lemma humanize_docker_first:
  "humanize_docker c n = Inr (case find (\<lambda>(matches, label). matches c n) (drop 21 humanize_patterns) of
        None \<Rightarrow> c | Some (matches, label) \<Rightarrow> label c n)"
  by (simp add: humanize_docker_def humanize_patterns_def)

lemma humanize_java_first:
  "humanize_java c n = Inr (case find (\<lambda>(matches, label). matches c n) (drop 19 humanize_patterns) of
        None \<Rightarrow> c | Some (matches, label) \<Rightarrow> label c n)"
  by (simp add: humanize_java_def humanize_docker_first humanize_patterns_def Let_def
      split: list.splits)

lemma humanize_python_first:
  "humanize_python c n = Inr (case find (\<lambda>(matches, label). matches c n) (drop 15 humanize_patterns) of
        None \<Rightarrow> c | Some (matches, label) \<Rightarrow> label c n)"
  by (simp add: humanize_python_def humanize_java_first humanize_patterns_def Let_def)

lemma humanize_node_first:
  "humanize_node c n = Inr (case find (\<lambda>(matches, label). matches c n) (drop 8 humanize_patterns) of
        None \<Rightarrow> c | Some (matches, label) \<Rightarrow> label c n)"
  using last_word_lower [of "CHR ''n''" "''odemon''" c] last_word_lower [of "CHR ''t''" "''s-node''" c]
    str_in_lower_word(2) [of "CHR ''n''" "''odemon''" c] str_in_lower_word(2) [of "CHR ''t''" "''s-node''" c]
  by (simp add: humanize_node_def humanize_python_first humanize_patterns_def Let_def isspace_letters)

lemma humanize_electron_first:
  "humanize_electron c n = Inr (case find (\<lambda>(matches, label). matches c n) (drop 6 humanize_patterns) of
        None \<Rightarrow> c | Some (matches, label) \<Rightarrow> label c n)"
  by (simp add: humanize_electron_def humanize_node_first humanize_patterns_def Let_def)

lemma humanize_is_first_match: "humanize_cmdline c n = Inr (first_match c n)"
  by (simp add: humanize_cmdline_def first_match_def humanize_electron_first humanize_patterns_def Let_def)

text \<open>
  Claim C8.  The label is a function of the command line and the process name alone:
  \<open>humanize_cmdline\<close> never raises, and its label is the label of the first pattern of
  the ordered list that matches.  When no pattern matches, the label is the command line
  itself, unchanged, and humanizing that label again gives it back.
\<close>

theorem humanize_cmdline_first_match:
  "humanize_cmdline c n = Inr (first_match c n)
   \<and> ((\<forall>(matches, label) \<in> set humanize_patterns. \<not> matches c n) \<longrightarrow>
        humanize_cmdline c n = Inr c \<and>
        (\<exists>l. humanize_cmdline c n = Inr l \<and> humanize_cmdline l n = Inr l))"
proof (intro conjI impI)
  show "humanize_cmdline c n = Inr (first_match c n)"
    by (rule humanize_is_first_match)
  assume "\<forall>(matches, label) \<in> set humanize_patterns. \<not> matches c n"
  then have "find (\<lambda>(matches, label). matches c n) humanize_patterns = None"
    unfolding find_None_iff by auto
  then have "first_match c n = c" by (simp add: first_match_def)
  then show "humanize_cmdline c n = Inr c" by (simp add: humanize_is_first_match)
  then show "\<exists>l. humanize_cmdline c n = Inr l \<and> humanize_cmdline l n = Inr l" by simp
qed

theorem humanize_cmdline_first_match_witness:
  "list_all (\<lambda>(matches, label). \<not> matches ''myservice --config=/etc/x.conf'' ''myservice'')
     humanize_patterns \<and>
   humanize_cmdline ''myservice --config=/etc/x.conf'' ''myservice'' =
     Inr ''myservice --config=/etc/x.conf''"
proof -
  have h: "list_all (\<lambda>(matches, label). \<not> matches ''myservice --config=/etc/x.conf'' ''myservice'')
     humanize_patterns"
    by code_simp
  then have "\<forall>(matches, label) \<in> set humanize_patterns.
      \<not> matches ''myservice --config=/etc/x.conf'' ''myservice''"
    by (simp add: list_all_iff)
  with h humanize_cmdline_first_match [of "''myservice --config=/etc/x.conf''" "''myservice''"]
  show ?thesis by blast
qed

section \<open>The enumeration returns\<close>

text \<open>When the connections can be read and no read of a process raises anything but
  \<open>NoSuchProcess\<close> or \<open>AccessDenied\<close>, \<open>get_listening_ports\<close> returns a list.\<close>

lemma port_entry_raises:
  assumes "port_entry h c lport p = Inl e"
  shows "Process h p = Inl e \<or>
     (\<exists>proc. Process h p = Inr proc \<and> (proc_cmdline proc = Inl e \<or> proc_name proc = Inl e))"
  using assms
  by (auto simp: port_entry_def humanize_is_first_match split: sum.splits)

lemma scan_returns:
  assumes "\<And>p e. Process h p = Inl e \<Longrightarrow> e = NoSuchProcess \<or> e = AccessDenied"
    and "\<And>p proc e. Process h p = Inr proc \<Longrightarrow> proc_cmdline proc = Inl e \<or> proc_name proc = Inl e \<Longrightarrow>
           e = NoSuchProcess \<or> e = AccessDenied"
  shows "\<exists>ps. scan h conns acc = Inr ps"
proof (induction conns arbitrary: acc)
  case Nil
  then show ?case by simp
next
  case (Cons c conns)
  have caught: "e = NoSuchProcess \<or> e = AccessDenied" if "port_entry h c lport p = Inl e" for lport p e
    using port_entry_raises [OF that] assms by blast
  show ?case
  proof (cases "conn_status c = ''LISTEN'' \<and> (\<exists>ip lport p. conn_laddr c = Some (ip, lport) \<and> lport \<noteq> 0 \<and>
       conn_pid c = Some p \<and> p \<noteq> 0)")
    case True
    then obtain ip lport p where c: "conn_status c = ''LISTEN''" "conn_laddr c = Some (ip, lport)"
      "lport \<noteq> 0" "conn_pid c = Some p" "p \<noteq> 0"
      by blast
    show ?thesis
    proof (cases "port_entry h c lport p")
      case (Inl e)
      with caught [of lport p e] c Cons.IH [of acc] show ?thesis by auto
    next
      case (Inr f)
      with c Cons.IH [of "acc @ [f]"] show ?thesis by simp
    qed
  next
    case False
    with Cons.IH [of acc] show ?thesis by (auto split: option.splits)
  qed
qed

lemma get_listening_ports_returns:
  assumes "net_connections h = Inr conns"
    and "\<And>p e. Process h p = Inl e \<Longrightarrow> e = NoSuchProcess \<or> e = AccessDenied"
    and "\<And>p proc e. Process h p = Inr proc \<Longrightarrow> proc_cmdline proc = Inl e \<or> proc_name proc = Inl e \<Longrightarrow>
           e = NoSuchProcess \<or> e = AccessDenied"
  shows "\<exists>ps. get_listening_ports h = Inr ps"
proof -
  have "\<exists>ps. scan h conns [] = Inr ps"
  proof (rule scan_returns)
    fix p e
    assume "Process h p = Inl e"
    then show "e = NoSuchProcess \<or> e = AccessDenied" by (rule assms(2))
  next
    fix p proc e
    assume "Process h p = Inr proc" "proc_cmdline proc = Inl e \<or> proc_name proc = Inl e"
    then show "e = NoSuchProcess \<or> e = AccessDenied" by (rule assms(3))
  qed
  with assms(1) show ?thesis by (auto simp: get_listening_ports_def)
qed

section \<open>Protected findings in the bulk termination\<close>

lemma kill_loop_filter:
  "kill_loop sys force (filter (\<lambda>f. \<not> is_protected f) ps) tr k = kill_loop sys force ps tr k"
  by (induction ps arbitrary: tr k) (auto split: prod.splits sum.splits)

lemma kill_loop_trace:
  "\<exists>ext. snd (kill_loop sys force ps tr k) = tr @ ext \<and>
     (\<forall>c \<in> set ext. \<exists>f \<in> set ps. \<not> is_protected f \<and> syscall_pid c = pid f)"
proof (induction ps arbitrary: tr k)
  case Nil
  then show ?case by simp
next
  case (Cons f ps)
  show ?case
  proof (cases "is_protected f")
    case True
    with Cons.IH [of tr k] show ?thesis by auto
  next
    case False
    obtain r tr1 where r: "kill_process sys tr (pid f) force = (r, tr1)"
      by (cases "kill_process sys tr (pid f) force")
    with kill_process_trace [of sys tr "pid f" force]
    obtain ext1 where e1: "tr1 = tr @ ext1" "\<forall>c \<in> set ext1. syscall_pid c = pid f" by auto
    show ?thesis
    proof (cases r)
      case (Inl e)
      with r False e1 show ?thesis by auto
    next
      case (Inr ok)
      from Cons.IH [of tr1 "if ok then k + 1 else k"]
      obtain ext2 where e2: "snd (kill_loop sys force ps tr1 (if ok then k + 1 else k)) = tr1 @ ext2"
        "\<forall>c \<in> set ext2. \<exists>f \<in> set ps. \<not> is_protected f \<and> syscall_pid c = pid f" by blast
      have "snd (kill_loop sys force (f # ps) tr k) = tr @ (ext1 @ ext2)"
        using r False Inr e1(1) e2(1) by simp
      moreover have "\<forall>c \<in> set (ext1 @ ext2). \<exists>g \<in> set (f # ps). \<not> is_protected g \<and> syscall_pid c = pid g"
        using e1(2) e2(2) False by auto
      ultimately show ?thesis by blast
    qed
  qed
qed

lemma kill_results_simps:
  "kill_results sys force [] tr = []"
  "is_protected f \<Longrightarrow> kill_results sys force (f # ps) tr = kill_results sys force ps tr"
  "\<not> is_protected f \<Longrightarrow> kill_process sys tr (pid f) force = (Inl e, tr1) \<Longrightarrow>
     kill_results sys force (f # ps) tr = [Inl e]"
  "\<not> is_protected f \<Longrightarrow> kill_process sys tr (pid f) force = (Inr ok, tr1) \<Longrightarrow>
     kill_results sys force (f # ps) tr = Inr ok # kill_results sys force ps tr1"
  by (simp_all add: kill_results_def)

lemma kill_loop_count:
  "fst (kill_loop sys force ps tr k) = Inr n \<Longrightarrow>
     n = k + int (length (filter (\<lambda>r. r = Inr True) (kill_results sys force ps tr)))"
proof (induction ps arbitrary: tr k)
  case Nil
  then show ?case by (simp add: kill_results_simps)
next
  case (Cons f ps)
  show ?case
  proof (cases "is_protected f")
    case True
    with Cons.prems have "fst (kill_loop sys force ps tr k) = Inr n" by simp
    from Cons.IH [OF this] True show ?thesis by (simp add: kill_results_simps)
  next
    case False
    obtain r tr1 where r: "kill_process sys tr (pid f) force = (r, tr1)"
      by (cases "kill_process sys tr (pid f) force")
    show ?thesis
    proof (cases r)
      case (Inl e)
      with r False Cons.prems show ?thesis by simp
    next
      case (Inr ok)
      with r False Cons.prems
      have "fst (kill_loop sys force ps tr1 (if ok then k + 1 else k)) = Inr n" by simp
      from Cons.IH [OF this]
      have "n = (if ok then k + 1 else k) +
          int (length (filter (\<lambda>r. r = Inr True) (kill_results sys force ps tr1)))" .
      moreover have "kill_results sys force (f # ps) tr = Inr ok # kill_results sys force ps tr1"
        using r False Inr by (simp add: kill_results_simps)
      ultimately show ?thesis by (cases ok) simp_all
    qed
  qed
qed

lemma kill_loop_returns:
  "\<forall>r \<in> set (kill_results sys force ps tr). \<exists>ok. r = Inr ok \<Longrightarrow>
     \<exists>n. fst (kill_loop sys force ps tr k) = Inr n"
proof (induction ps arbitrary: tr k)
  case Nil
  then show ?case by simp
next
  case (Cons f ps)
  show ?case
  proof (cases "is_protected f")
    case True
    with Cons.prems Cons.IH [of tr k] show ?thesis by (simp add: kill_results_simps)
  next
    case False
    obtain r tr1 where r: "kill_process sys tr (pid f) force = (r, tr1)"
      by (cases "kill_process sys tr (pid f) force")
    show ?thesis
    proof (cases r)
      case (Inl e)
      with r False Cons.prems show ?thesis by (simp add: kill_results_simps)
    next
      case (Inr ok)
      with r False Cons.prems
      have "\<forall>r \<in> set (kill_results sys force ps tr1). \<exists>ok. r = Inr ok"
        by (simp add: kill_results_simps)
      from Cons.IH [OF this, of "if ok then k + 1 else k"] r False Inr show ?thesis by simp
    qed
  qed
qed

text \<open>
  Claim C1.  For every list of findings and either value of \<open>force\<close>, the loop of
  \<open>kill_all_dev_ports\<close> runs as if the protected findings were not in the list: every
  call it makes to the system is for the process of a finding that is not protected.  When
  it returns, the count is the number of findings that are not protected and for which
  \<open>kill_process\<close> returned \<open>True\<close>; it returns unless a call of \<open>kill_process\<close> raises.
  \<open>kill_all_dev_ports\<close> is this loop on the list of \<open>get_dev_ports\<close>.
\<close>

theorem kill_all_dev_ports_skips_protected:
  "kill_loop sys force ps tr k = kill_loop sys force (filter (\<lambda>f. \<not> is_protected f) ps) tr k
   \<and> (\<exists>ext. snd (kill_loop sys force ps tr k) = tr @ ext \<and>
        (\<forall>c \<in> set ext. \<exists>f \<in> set ps. \<not> is_protected f \<and> syscall_pid c = pid f))
   \<and> (fst (kill_loop sys force ps tr 0) = Inr n \<longrightarrow>
        n = int (length (filter (\<lambda>r. r = Inr True) (kill_results sys force ps tr))))
   \<and> ((\<forall>r \<in> set (kill_results sys force ps tr). \<exists>ok. r = Inr ok) \<longrightarrow>
        (\<exists>m. fst (kill_loop sys force ps tr 0) = Inr m))
   \<and> (get_dev_ports h = Inr ps \<longrightarrow>
        kill_all_dev_ports h sys tr force = kill_loop sys force ps tr 0)"
proof (intro conjI impI)
  show "kill_loop sys force ps tr k = kill_loop sys force (filter (\<lambda>f. \<not> is_protected f) ps) tr k"
    by (simp add: kill_loop_filter)
  show "\<exists>ext. snd (kill_loop sys force ps tr k) = tr @ ext \<and>
        (\<forall>c \<in> set ext. \<exists>f \<in> set ps. \<not> is_protected f \<and> syscall_pid c = pid f)"
    by (rule kill_loop_trace)
  show "n = int (length (filter (\<lambda>r. r = Inr True) (kill_results sys force ps tr)))"
    if "fst (kill_loop sys force ps tr 0) = Inr n"
    using kill_loop_count [OF that] by simp
  show "\<exists>m. fst (kill_loop sys force ps tr 0) = Inr m"
    if "\<forall>r \<in> set (kill_results sys force ps tr). \<exists>ok. r = Inr ok"
    using kill_loop_returns [OF that] .
  show "kill_all_dev_ports h sys tr force = kill_loop sys force ps tr 0"
    if "get_dev_ports h = Inr ps"
    using that by (simp add: kill_all_dev_ports_def)
qed

theorem kill_all_dev_ports_skips_protected_witness:
  "get_dev_ports demo_host = Inr demo_findings \<and>
   is_protected (demo_findings ! 2) \<and> pid (demo_findings ! 2) = 11 \<and>
   kill_results demo_system False demo_findings [] = [Inr True, Inr False, Inr True] \<and>
   kill_all_dev_ports demo_host demo_system [] False =
     (Inr 2,
      [Process_new 17, Proc_terminate 17, Proc_wait 17 3, Process_new 17, Proc_kill 17,
       Proc_wait 17 3, Process_new 18, Proc_terminate 18,
       Process_new 42, Proc_terminate 42, Proc_wait 42 3])"
proof -
  have d: "get_dev_ports demo_host = Inr demo_findings" by code_simp
  have r: "kill_results demo_system False demo_findings [] = [Inr True, Inr False, Inr True]"
    by code_simp
  have t: "snd (kill_loop demo_system False demo_findings [] 0) =
      [Process_new 17, Proc_terminate 17, Proc_wait 17 3, Process_new 17, Proc_kill 17,
       Proc_wait 17 3, Process_new 18, Proc_terminate 18,
       Process_new 42, Proc_terminate 42, Proc_wait 42 3]"
    by code_simp
  have p: "is_protected (demo_findings ! 2) \<and> pid (demo_findings ! 2) = 11"
    by (simp add: demo_findings_def)
  note c = kill_all_dev_ports_skips_protected [of demo_system False demo_findings "[]" 0 _ demo_host]
  from c [of 0, THEN conjunct2, THEN conjunct2, THEN conjunct2, THEN conjunct1] r
  obtain m where m: "fst (kill_loop demo_system False demo_findings [] 0) = Inr m"
    by auto
  from c [of 0, THEN conjunct2, THEN conjunct2, THEN conjunct2, THEN conjunct2] d
  have k: "kill_all_dev_ports demo_host demo_system [] False =
      kill_loop demo_system False demo_findings [] 0"
    by simp
  from c [of m, THEN conjunct2, THEN conjunct2, THEN conjunct1] m r
  have "m = 2" by simp
  with m t k have "kill_all_dev_ports demo_host demo_system [] False =
     (Inr 2,
      [Process_new 17, Proc_terminate 17, Proc_wait 17 3, Process_new 17, Proc_kill 17,
       Proc_wait 17 3, Process_new 18, Proc_terminate 18,
       Process_new 42, Proc_terminate 42, Proc_wait 42 3])"
    by (simp add: prod_eq_iff)
  with d r p show ?thesis by simp
qed

section \<open>Labels and decisions\<close>

lemma insort_key_map:
  "map g (insort_key (\<lambda>a. k (g a)) x xs) = insort_key k (g x) (map g xs)"
  by (induction xs) simp_all

lemma sort_key_map:
  "map g (sort_key (\<lambda>a. k (g a)) xs) = sort_key k (map g xs)"
  by (induction xs) (simp_all add: insort_key_map)

lemma port_unlabelled: "port = (\<lambda>a. fst (unlabelled a))"
  by (simp add: fun_eq_iff unlabelled_def)

lemma sort_key_unlabelled:
  "map unlabelled xs = map unlabelled ys \<Longrightarrow>
     map unlabelled (sort_key port xs) = map unlabelled (sort_key port ys)"
  unfolding port_unlabelled sort_key_map by simp

lemma port_entry_with_cmdlines:
  "map_sum id unlabelled (port_entry (with_cmdlines g h) c lport p) =
     map_sum id unlabelled (port_entry h c lport p)"
  by (simp add: port_entry_def with_cmdlines_def humanize_is_first_match unlabelled_def
      split: sum.splits)

lemma scan_with_cmdlines:
  "map unlabelled acc' = map unlabelled acc \<Longrightarrow>
     map_sum id (map unlabelled) (scan (with_cmdlines g h) conns acc') =
     map_sum id (map unlabelled) (scan h conns acc)"
proof (induction conns arbitrary: acc acc')
  case Nil
  then show ?case by simp
next
  case (Cons c conns)
  note IH = Cons.IH [OF Cons.prems]
  show ?case
  proof (cases "conn_status c = ''LISTEN'' \<and> (\<exists>ip lport p. conn_laddr c = Some (ip, lport) \<and> lport \<noteq> 0 \<and>
       conn_pid c = Some p \<and> p \<noteq> 0)")
    case True
    then obtain ip lport p where c: "conn_status c = ''LISTEN''" "conn_laddr c = Some (ip, lport)"
      "lport \<noteq> 0" "conn_pid c = Some p" "p \<noteq> 0"
      by blast
    show ?thesis
    proof (cases "port_entry h c lport p")
      case (Inl e)
      with port_entry_with_cmdlines [of g h c lport p]
      have "port_entry (with_cmdlines g h) c lport p = Inl e"
        by (cases "port_entry (with_cmdlines g h) c lport p") simp_all
      with Inl c IH show ?thesis by (cases e) simp_all
    next
      case (Inr f)
      with port_entry_with_cmdlines [of g h c lport p]
      obtain f' where f': "port_entry (with_cmdlines g h) c lport p = Inr f'" "unlabelled f' = unlabelled f"
        by (cases "port_entry (with_cmdlines g h) c lport p") simp_all
      from Cons.prems f'(2) have "map unlabelled (acc' @ [f']) = map unlabelled (acc @ [f])" by simp
      from Cons.IH [OF this] Inr f'(1) c show ?thesis by simp
    qed
  next
    case False
    with IH show ?thesis
      by (auto split: option.splits)
  qed
qed

lemma get_listening_ports_with_cmdlines:
  "map_sum id (map unlabelled) (get_listening_ports (with_cmdlines g h)) =
     map_sum id (map unlabelled) (get_listening_ports h)"
proof (cases "net_connections h")
  case (Inl e)
  then show ?thesis by (simp add: get_listening_ports_def with_cmdlines_def)
next
  case (Inr conns)
  then have n: "net_connections (with_cmdlines g h) = Inr conns" by (simp add: with_cmdlines_def)
  from scan_with_cmdlines [of "[]" "[]" g h conns]
  have s: "map_sum id (map unlabelled) (scan (with_cmdlines g h) conns []) =
     map_sum id (map unlabelled) (scan h conns [])" by simp
  show ?thesis
  proof (cases "scan h conns []")
    case (Inl e)
    with s have "scan (with_cmdlines g h) conns [] = Inl e"
      by (cases "scan (with_cmdlines g h) conns []") simp_all
    with Inl Inr n show ?thesis by (simp add: get_listening_ports_def)
  next
    case found: (Inr found)
    with s obtain found' where f': "scan (with_cmdlines g h) conns [] = Inr found'"
      "map unlabelled found' = map unlabelled found"
      by (cases "scan (with_cmdlines g h) conns []") simp_all
    with found Inr n sort_key_unlabelled [OF f'(2)] show ?thesis
      by (simp add: get_listening_ports_def)
  qed
qed

lemma kill_loop_cong:
  "map (\<lambda>f. (pid f, is_protected f)) ps = map (\<lambda>f. (pid f, is_protected f)) qs \<Longrightarrow>
     kill_loop sys force ps tr k = kill_loop sys force qs tr k"
proof (induction ps arbitrary: qs tr k)
  case Nil
  then show ?case by simp
next
  case (Cons f ps)
  then obtain g qs' where q: "qs = g # qs'" "pid f = pid g" "is_protected f = is_protected g"
    "map (\<lambda>f. (pid f, is_protected f)) ps = map (\<lambda>f. (pid f, is_protected f)) qs'"
    by (cases qs) auto
  from Cons.IH [OF q(4)] q(1,2,3) show ?case
    by (simp split: prod.splits sum.splits)
qed

lemma filter_dev_cong:
  "map (\<lambda>f. (port f, pid f, is_protected f)) ps = map (\<lambda>f. (port f, pid f, is_protected f)) qs \<Longrightarrow>
     map (\<lambda>f. (pid f, is_protected f)) (filter (\<lambda>f. is_dev_port (port f)) ps) =
     map (\<lambda>f. (pid f, is_protected f)) (filter (\<lambda>f. is_dev_port (port f)) qs)"
proof (induction ps arbitrary: qs)
  case Nil
  then show ?case by simp
next
  case (Cons f ps)
  then obtain g qs' where q: "qs = g # qs'" "port f = port g" "pid f = pid g" "is_protected f = is_protected g"
    "map (\<lambda>f. (port f, pid f, is_protected f)) ps = map (\<lambda>f. (port f, pid f, is_protected f)) qs'"
    by (cases qs) auto
  from Cons.IH [OF q(5)] q(1,2,3,4) show ?case by simp
qed

lemma unlabelled_low:
  "map unlabelled ps = map unlabelled qs \<Longrightarrow>
     map (\<lambda>f. (port f, pid f, is_protected f)) ps = map (\<lambda>f. (port f, pid f, is_protected f)) qs"
proof (induction ps arbitrary: qs)
  case Nil
  then show ?case by simp
next
  case (Cons f ps)
  then obtain g qs' where q: "qs = g # qs'" "unlabelled f = unlabelled g"
    "map unlabelled ps = map unlabelled qs'"
    by (cases qs) auto
  from Cons.IH [OF q(3)] q(1,2) show ?case by (simp add: unlabelled_def)
qed

text \<open>
  Claim C9.  The label never affects classification or termination.  Two runs on hosts
  that differ only in the command lines of their processes give findings that agree in
  every field but the label, in particular in the protection flag, and the bulk
  termination makes the same calls and returns the same count in both.  For two lists of
  findings that agree in port, process id and protection flag, the loop of
  \<open>kill_all_dev_ports\<close> on their development ports runs the same.
\<close>

theorem labels_do_not_interfere:
  "map_sum id (map unlabelled) (get_listening_ports (with_cmdlines g h)) =
     map_sum id (map unlabelled) (get_listening_ports h)
   \<and> kill_all_dev_ports (with_cmdlines g h) sys tr force = kill_all_dev_ports h sys tr force
   \<and> (map (\<lambda>f. (port f, pid f, is_protected f)) ps = map (\<lambda>f. (port f, pid f, is_protected f)) qs \<longrightarrow>
        kill_loop sys force (filter (\<lambda>f. is_dev_port (port f)) ps) tr k =
        kill_loop sys force (filter (\<lambda>f. is_dev_port (port f)) qs) tr k)"
proof (intro conjI impI)
  show l: "map_sum id (map unlabelled) (get_listening_ports (with_cmdlines g h)) =
     map_sum id (map unlabelled) (get_listening_ports h)"
    by (rule get_listening_ports_with_cmdlines)
  show k: "kill_loop sys force (filter (\<lambda>f. is_dev_port (port f)) ps) tr k =
        kill_loop sys force (filter (\<lambda>f. is_dev_port (port f)) qs) tr k"
    if "map (\<lambda>f. (port f, pid f, is_protected f)) ps = map (\<lambda>f. (port f, pid f, is_protected f)) qs"
    for ps qs k
    using kill_loop_cong [OF filter_dev_cong [OF that]] .
  show "kill_all_dev_ports (with_cmdlines g h) sys tr force = kill_all_dev_ports h sys tr force"
  proof (cases "get_listening_ports h")
    case (Inl e)
    with l have "get_listening_ports (with_cmdlines g h) = Inl e"
      by (cases "get_listening_ports (with_cmdlines g h)") simp_all
    with Inl show ?thesis by (simp add: kill_all_dev_ports_def get_dev_ports_def)
  next
    case (Inr qs)
    with l obtain ps where ps: "get_listening_ports (with_cmdlines g h) = Inr ps"
      "map unlabelled ps = map unlabelled qs"
      by (cases "get_listening_ports (with_cmdlines g h)") simp_all
    from k [OF unlabelled_low [OF ps(2)], of 0] ps(1) Inr show ?thesis
      by (simp add: kill_all_dev_ports_def get_dev_ports_def)
  qed
qed

theorem labels_do_not_interfere_witness:
  "map (\<lambda>f. (port f, pid f, is_protected f)) demo_findings =
     map (\<lambda>f. (port f, pid f, is_protected f)) (map (\<lambda>f. f\<lparr>cmdline := ''sh''\<rparr>) demo_findings) \<and>
   kill_loop demo_system False (filter (\<lambda>f. is_dev_port (port f)) demo_findings) [] 0 =
     kill_loop demo_system False
       (filter (\<lambda>f. is_dev_port (port f)) (map (\<lambda>f. f\<lparr>cmdline := ''sh''\<rparr>) demo_findings)) [] 0 \<and>
   kill_all_dev_ports (with_cmdlines (\<lambda>p words. [''sh'']) demo_host) demo_system [] False =
     kill_all_dev_ports demo_host demo_system [] False"
proof -
  have h: "map (\<lambda>f. (port f, pid f, is_protected f)) demo_findings =
     map (\<lambda>f. (port f, pid f, is_protected f)) (map (\<lambda>f. f\<lparr>cmdline := ''sh''\<rparr>) demo_findings)"
    by (simp add: demo_findings_def)
  from h labels_do_not_interfere [of "\<lambda>p words. [''sh'']" demo_host demo_system "[]" False
      demo_findings "map (\<lambda>f. f\<lparr>cmdline := ''sh''\<rparr>) demo_findings" 0]
  show ?thesis by blast
qed

end
